theory Spec2Isabelle
  imports Complex_Main
begin

section \<open>Numbers and strings\<close>

text \<open>
  The component \<^verbatim>\<open>src/components/VideoGenerator.tsx\<close> computes with JavaScript numbers.
  They are modelled as \<^typ>\<open>real\<close> where the code computes with fractions and as
  \<^typ>\<open>int\<close> where it holds whole numbers (colour channels, character counts). The one
  place where the code can leave the finite numbers, the quotient in \<open>progress\<close>, is
  written out there. Strings are \<^typ>\<open>string\<close>, one \<^typ>\<open>char\<close> per code unit.
\<close>

definition clamp :: "'a::linorder \<Rightarrow> 'a \<Rightarrow> 'a \<Rightarrow> 'a" where
  "clamp n mn mx = max mn (min mx n)"

section \<open>Colour utilities\<close>

record rgb =
  r :: int
  g :: int
  b :: int

text \<open>
  The character class \<^verbatim>\<open>[a-f\d]\<close> under the flag \<^verbatim>\<open>i\<close>, and the value
  \<^verbatim>\<open>parseInt\<close> gives one such digit in base 16.
\<close>

definition isHexDigit :: "char \<Rightarrow> bool" where
  "isHexDigit c = (c \<in> set ''0123456789abcdefABCDEF'')"

definition digitValue :: "char \<Rightarrow> int" where
  "digitValue c =
     (let n = (of_char c :: int)
      in if n \<le> 57 then n - 48 else if n \<le> 70 then n - 55 else n - 87)"

text \<open>
  \<^verbatim>\<open>parseInt(m[k], 16)\<close> on a captured group. A group is made of hexadecimal digits
  only, so the scan never stops early.
\<close>

definition parseInt16 :: "string \<Rightarrow> int" where
  "parseInt16 ds = foldl (\<lambda>acc c. acc * 16 + digitValue c) 0 ds"

text \<open>
  The three groups \<^verbatim>\<open>([a-f\d]{2})([a-f\d]{2})([a-f\d]{2})$\<close>: exactly six
  characters of the class up to the end of the input.
\<close>

fun hexGroups :: "string \<Rightarrow> (string \<times> string \<times> string) option" where
  "hexGroups [c1, c2, c3, c4, c5, c6] =
     (if isHexDigit c1 \<and> isHexDigit c2 \<and> isHexDigit c3 \<and>
         isHexDigit c4 \<and> isHexDigit c5 \<and> isHexDigit c6
      then Some ([c1, c2], [c3, c4], [c5, c6]) else None)"
| "hexGroups _ = None"

text \<open>
  \<^verbatim>\<open>/^#?([a-f\d]{2})([a-f\d]{2})([a-f\d]{2})$/i.exec(hex)\<close>. The optional
  \<^verbatim>\<open>#\<close> is greedy: the matcher first consumes a leading \<^verbatim>\<open>#\<close> and, when the
  rest does not match, backtracks and tries the groups on the whole input.
\<close>

definition hexExec :: "string \<Rightarrow> (string \<times> string \<times> string) option" where
  "hexExec hex =
     (case hex of
        c # cs \<Rightarrow>
          if c = CHR ''#'' then
            (case hexGroups cs of Some m \<Rightarrow> Some m | None \<Rightarrow> hexGroups hex)
          else hexGroups hex
      | [] \<Rightarrow> hexGroups hex)"

definition hexToRgb :: "string \<Rightarrow> rgb" where
  "hexToRgb hex =
     (case hexExec hex of
        None \<Rightarrow> \<lparr>r = 0, g = 0, b = 0\<rparr>
      | Some (m1, m2, m3) \<Rightarrow> \<lparr>r = parseInt16 m1, g = parseInt16 m2, b = parseInt16 m3\<rparr>)"

text \<open>
  \<^verbatim>\<open>n.toString(16)\<close> for a whole number: lower-case digits, most significant first,
  a minus sign before a negative number.
\<close>

definition hexDigitChar :: "nat \<Rightarrow> char" where
  "hexDigitChar d = ''0123456789abcdef'' ! d"

function toString16Nat :: "nat \<Rightarrow> string" where
  "toString16Nat n =
     (if n < 16 then [hexDigitChar n]
      else toString16Nat (n div 16) @ [hexDigitChar (n mod 16)])"
  by pat_completeness auto
termination
  by (relation "measure (\<lambda>n. n)") auto

declare toString16Nat.simps [simp del]

definition toString16 :: "int \<Rightarrow> string" where
  "toString16 n =
     (if n < 0 then CHR ''-'' # toString16Nat (nat (- n)) else toString16Nat (nat n))"

definition padStart :: "nat \<Rightarrow> char \<Rightarrow> string \<Rightarrow> string" where
  "padStart k c s = replicate (k - length s) c @ s"

definition toHex :: "int \<Rightarrow> string" where
  "toHex n = padStart 2 CHR ''0'' (toString16 n)"

definition rgbToHex :: "int \<Rightarrow> int \<Rightarrow> int \<Rightarrow> string" where
  "rgbToHex rr gg bb = CHR ''#'' # toHex rr @ toHex gg @ toHex bb"

text \<open>
  \<^verbatim>\<open>Math.round\<close> rounds halves upwards, as \<^const>\<open>round\<close> does.
\<close>

definition shade :: "string \<Rightarrow> real \<Rightarrow> string" where
  "shade hex percent =
     (let c = hexToRgb hex;
          t = (100 + percent) / 100;
          rr = clamp (round (real_of_int (r c) * t)) 0 255;
          gg = clamp (round (real_of_int (g c) * t)) 0 255;
          bb = clamp (round (real_of_int (b c) * t)) 0 255
      in rgbToHex rr gg bb)"

text \<open>
  The template string \<^verbatim>\<open>rgba(r, g, b, a)\<close> that \<open>withAlpha\<close> builds is kept as its
  four components.
\<close>

datatype css_rgba = Rgba int int int real

definition withAlpha :: "string \<Rightarrow> real \<Rightarrow> css_rgba" where
  "withAlpha hex a = (let c = hexToRgb hex in Rgba (r c) (g c) (b c) (clamp a 0 1))"

subsection \<open>The input shapes the specification names\<close>

text \<open>
  Following the spec's words, not the code: \<^verbatim>\<open>#RRGGBB\<close> read case-insensitively is a
  \<^verbatim>\<open>#\<close> followed by exactly six hexadecimal digits.
\<close>

definition matchesHashRRGGBB :: "string \<Rightarrow> bool" where
  "matchesHashRRGGBB h =
     (case h of [] \<Rightarrow> False | c # cs \<Rightarrow> c = CHR ''#'' \<and> length cs = 6 \<and> list_all isHexDigit cs)"

text \<open>
  The inputs the regular expression accepts are wider: the \<^verbatim>\<open>#\<close> may be missing.
  \<open>hexBody\<close> is the input without a leading \<^verbatim>\<open>#\<close>.
\<close>

definition hexBody :: "string \<Rightarrow> string" where
  "hexBody h = (case h of [] \<Rightarrow> [] | c # cs \<Rightarrow> if c = CHR ''#'' then cs else h)"

definition acceptsHex :: "string \<Rightarrow> bool" where
  "acceptsHex h = (length (hexBody h) = 6 \<and> list_all isHexDigit (hexBody h))"

text \<open>Case normalisation of a colour string: the letters A to Z in lower case.\<close>

definition toLowerCase :: "char \<Rightarrow> char" where
  "toLowerCase c =
     (case map_of (zip ''ABCDEFGHIJKLMNOPQRSTUVWXYZ'' ''abcdefghijklmnopqrstuvwxyz'') c of
        Some l \<Rightarrow> l
      | None \<Rightarrow> c)"

section \<open>Settings and easing\<close>

datatype AnimationType = Fade | Slide | Zoom | Typewriter

record Settings =
  width :: real
  height :: real
  fps :: real
  durationSeconds :: real
  background :: string
  textColor :: string
  "text" :: string
  fontSize :: real
  animation :: AnimationType

definition DEFAULTS :: Settings where
  "DEFAULTS =
     \<lparr>width = 720, height = 1280, fps = 60, durationSeconds = 6,
      background = ''#0c1326'', textColor = ''#e7ecff'',
      text = ''Hello, world!'' @ [CHR 0x0A] @
             ''This video was generated entirely in your browser.'',
      fontSize = 48, animation = Fade\<rparr>"

definition easeOutCubic :: "real \<Rightarrow> real" where
  "easeOutCubic t = 1 - (1 - t) ^ 3"

definition easeInCubic :: "real \<Rightarrow> real" where
  "easeInCubic t = t * t * t"

definition easeInOutCubic :: "real \<Rightarrow> real" where
  "easeInOutCubic t = (if t < 0.5 then 4 * t * t * t else 1 - (- 2 * t + 2) ^ 3 / 2)"

definition easeOutBack :: "real \<Rightarrow> real" where
  "easeOutBack t =
     (let c1 = 1.70158; c3 = c1 + 1
      in 1 + c3 * (t - 1) ^ 3 + c1 * (t - 1) ^ 2)"

section \<open>The frame renderer\<close>

text \<open>
  \<open>drawFrame\<close> only ever writes to the 2D context: it calls its methods and assigns its
  properties, and reads nothing back. A frame is therefore the list of these calls in the
  order the code makes them. A gradient object is kept with the call that installs it
  (its end points and its colour stops), and the font string with its one varying part,
  the size in pixels.
\<close>

datatype paint_style =
    ColorString string
  | ColorRgba css_rgba
  | LinearGradient real real real real "(real \<times> string) list"

datatype canvas_call =
    ClearRect real real real real
  | SetFillStyle paint_style
  | FillRect real real real real
  | BeginPath
  | MoveTo real real
  | LineTo real real
  | SetStrokeStyle paint_style
  | SetLineWidth real
  | Stroke
  | SetTextAlign string
  | SetTextBaseline string
  | SetFont real
  | Save
  | Restore
  | SetGlobalAlpha real
  | Translate real real
  | Scale real real
  | FillText string real real

text \<open>
  \<^verbatim>\<open>s.split(/\r?\n/)\<close>: a line ends at a line feed, or at a carriage return that a line
  feed follows. The result always has at least one line.
\<close>

fun splitLines :: "string \<Rightarrow> string list" where
  "splitLines [] = [[]]"
| "splitLines (c # cs) =
     (if c = CHR 0x0A then [] # splitLines cs
      else if c = CHR 0x0D \<and> cs \<noteq> [] \<and> hd cs = CHR 0x0A then [] # splitLines (tl cs)
      else (case splitLines cs of
              l # ls \<Rightarrow> (c # l) # ls
            | [] \<Rightarrow> [[c]]))"

text \<open>The loop of \<open>drawLines\<close> over the line index \<open>i\<close>.\<close>

function drawLinesLoop :: "string list \<Rightarrow> nat \<Rightarrow> real \<Rightarrow> canvas_call list" where
  "drawLinesLoop lines i lineHeight =
     (if i < length lines
      then (let yy = real i * lineHeight
            in FillText (lines ! i) 0 yy # drawLinesLoop lines (i + 1) lineHeight)
      else [])"
  by pat_completeness auto
termination
  by (relation "measure (\<lambda>(lines, i, lineHeight). length lines - i)") auto

declare drawLinesLoop.simps [simp del]

definition drawLines ::
  "string list \<Rightarrow> real \<Rightarrow> real \<Rightarrow> real \<Rightarrow> real \<Rightarrow> real \<Rightarrow> real \<Rightarrow> canvas_call list" where
  "drawLines lines x y lineHeight blockHeight scale alpha =
     [Save,
      Translate x (y - blockHeight / 2 + lineHeight / 2),
      Scale scale scale,
      SetGlobalAlpha alpha]
     @ drawLinesLoop lines 0 lineHeight
     @ [Restore]"

text \<open>
  The inner loop of the decorative waves: \<open>x\<close> runs from 0 in steps of 18 while it is at
  most the frame width.
\<close>

function wavePath :: "real \<Rightarrow> real \<Rightarrow> real \<Rightarrow> real \<Rightarrow> real \<Rightarrow> canvas_call list" where
  "wavePath x w y phase amplitude =
     (if x \<le> w
      then (let yy = y + sin (phase + x * 0.01) * amplitude
            in (if x = 0 then MoveTo 0 yy else LineTo x yy)
               # wavePath (x + 18) w y phase amplitude)
      else [])"
  by pat_completeness auto
termination
proof (relation "measure (\<lambda>(x, w, y, phase, amplitude). nat (\<lfloor>(w - x) / 18\<rfloor> + 1))")
  show "wf (measure (\<lambda>(x, w, y, phase, amplitude). nat (\<lfloor>(w - x) / 18\<rfloor> + 1)))"
    by simp
next
  fix x w y phase amplitude :: real and yy :: real
  assume le: "x \<le> w"
  have "(w - (x + 18)) / 18 = (w - x) / 18 - 1"
    by (simp add: field_simps)
  then have "\<lfloor>(w - (x + 18)) / 18\<rfloor> = \<lfloor>(w - x) / 18 - 1\<rfloor>"
    by (rule arg_cong)
  also have "\<dots> = \<lfloor>(w - x) / 18\<rfloor> - 1"
    by simp
  finally have step: "\<lfloor>(w - (x + 18)) / 18\<rfloor> = \<lfloor>(w - x) / 18\<rfloor> - 1" .
  have "0 \<le> \<lfloor>(w - x) / 18\<rfloor>"
    using le by simp
  then show "((x + 18, w, y, phase, amplitude), (x, w, y, phase, amplitude))
        \<in> measure (\<lambda>(x, w, y, phase, amplitude). nat (\<lfloor>(w - x) / 18\<rfloor> + 1))"
    using step by simp
qed

declare wavePath.simps [simp del]

text \<open>One pass of the outer loop, for the wave with index \<open>i\<close>.\<close>

definition wave :: "Settings \<Rightarrow> real \<Rightarrow> nat \<Rightarrow> canvas_call list" where
  "wave s tMs i =
     (let phase = (tMs / 1000) * (0.2 + real i * 0.05);
          y = height s * (0.2 + real i * 0.2) + sin phase * 10;
          amplitude = 14 + real i * 6
      in [BeginPath]
         @ wavePath 0 (width s) y phase amplitude
         @ [SetStrokeStyle (ColorRgba (withAlpha ''#6ea8fe'' (0.18 - real i * 0.04))),
            SetLineWidth (2 + real i),
            Stroke])"

function wavesLoop :: "Settings \<Rightarrow> real \<Rightarrow> nat \<Rightarrow> canvas_call list" where
  "wavesLoop s tMs i =
     (let waveCount = 3
      in if i < waveCount then wave s tMs i @ wavesLoop s tMs (i + 1) else [])"
  by pat_completeness auto
termination
  by (relation "measure (\<lambda>(s, tMs, i). 3 - i)") auto

declare wavesLoop.simps [simp del]

text \<open>
  \<^verbatim>\<open>clamp(tMs / (settings.durationSeconds * 1000), 0, 1)\<close>. The settings form stores
  \<^verbatim>\<open>Number(e.target.value)\<close>, which is 0 for an emptied field, so the divisor can be 0.
  JavaScript then divides to an infinity, which \<open>clamp\<close> brings back to 1 or 0, or, for
  0 / 0, to NaN, which \<open>clamp\<close> passes on. NaN is \<open>None\<close> here. (The sign of a zero
  divisor is not modelled.)
\<close>

definition progress :: "Settings \<Rightarrow> real \<Rightarrow> real option" where
  "progress s tMs =
     (let total = durationSeconds s * 1000
      in if total = 0
         then (if tMs = 0 then None else if 0 < tMs then Some 1 else Some 0)
         else Some (clamp (tMs / total) 0 1))"

text \<open>The arms of the \<^verbatim>\<open>switch\<close> over the animation, as functions of the progress.\<close>

definition fadeAlpha :: "real \<Rightarrow> real" where
  "fadeAlpha p =
     (let inP = easeOutCubic (clamp (p * 2) 0 1);
          outP = 1 - easeInCubic (clamp ((p - 0.5) * 2) 0 1)
      in inP * outP)"

definition slideOffset :: "real \<Rightarrow> real \<Rightarrow> real \<Rightarrow> real" where
  "slideOffset h tMs p =
     (let direction = (if sin (tMs * 0.002) > 0 then 1 else - 1);
          q = easeInOutCubic p
      in (1 - q) * direction * h * 0.25)"

definition zoomScale :: "real \<Rightarrow> real" where
  "zoomScale p = (let q = easeOutBack (min (p * 1.2) 1) in 0.9 + q * 0.2)"

definition typewriterVisible :: "string \<Rightarrow> real \<Rightarrow> string" where
  "typewriterVisible txt p =
     (let totalChars = length txt;
          charsToShow = \<lfloor>p * (real totalChars + 6)\<rfloor>
      in take (nat (max 0 charsToShow)) txt)"

text \<open>The progress bar, the last statements of \<open>drawFrame\<close>.\<close>

definition progressBar :: "Settings \<Rightarrow> real \<Rightarrow> canvas_call list" where
  "progressBar s p =
     (let barMargin = 24;
          barWidth = width s - barMargin * 2;
          barHeight = 6;
          filled = \<lfloor>barWidth * p\<rfloor>
      in [SetFillStyle (ColorRgba (withAlpha ''#6ea8fe'' 0.35)),
          FillRect barMargin (height s - barMargin - barHeight) barWidth barHeight,
          SetFillStyle (ColorString ''#6ea8fe''),
          FillRect barMargin (height s - barMargin - barHeight) (real_of_int filled) barHeight])"

text \<open>
  What follows the \<^verbatim>\<open>switch\<close> for the arms that leave it with \<^verbatim>\<open>break\<close>: the text
  block under the computed alpha, offset and scale, then the progress bar.
\<close>

definition textAndBar ::
  "Settings \<Rightarrow> real \<Rightarrow> string list \<Rightarrow> real \<Rightarrow> real \<Rightarrow> real \<Rightarrow> real \<Rightarrow> real
     \<Rightarrow> canvas_call list" where
  "textAndBar s p lines totalLineHeight blockHeight alpha yOffset scale =
     [Save,
      SetGlobalAlpha alpha,
      Translate (width s / 2) (height s / 2 + yOffset),
      Scale scale scale]
     @ drawLines lines 0 0 totalLineHeight blockHeight 1 1
     @ [Restore]
     @ progressBar s p"

text \<open>
  \<open>drawFrame\<close> for the settings \<open>s\<close> at \<open>tMs\<close> milliseconds. The typewriter arm draws the
  revealed text itself and returns from the function. \<open>None\<close> stands for the frame at
  which the progress is NaN, which this model does not describe.
\<close>

definition drawFrame :: "Settings \<Rightarrow> real \<Rightarrow> canvas_call list option" where
  "drawFrame s tMs =
     (case progress s tMs of
        None \<Rightarrow> None
      | Some p \<Rightarrow>
          Some
            ([ClearRect 0 0 (width s) (height s),
              SetFillStyle
                (LinearGradient 0 0 0 (height s)
                   [(0, background s), (1, shade (background s) (- 12))]),
              FillRect 0 0 (width s) (height s)]
             @ wavesLoop s tMs 0
             @ [SetFillStyle (ColorString (textColor s)),
                SetTextAlign ''center'',
                SetTextBaseline ''middle'',
                SetFont (fontSize s)]
             @ (let lines = splitLines (text s);
                    totalLineHeight = fontSize s * 1.3;
                    blockHeight = totalLineHeight * real (length lines);
                    alpha = 1;
                    yOffset = 0;
                    scale = 1
                in case animation s of
                     Fade \<Rightarrow>
                       textAndBar s p lines totalLineHeight blockHeight (fadeAlpha p) yOffset scale
                   | Slide \<Rightarrow>
                       textAndBar s p lines totalLineHeight blockHeight
                         0.9 (slideOffset (height s) tMs p) scale
                   | Zoom \<Rightarrow>
                       textAndBar s p lines totalLineHeight blockHeight
                         0.95 yOffset (zoomScale p)
                   | Typewriter \<Rightarrow>
                       (let visible = typewriterVisible (text s) p;
                            visibleLines = splitLines visible
                        in drawLines visibleLines (width s / 2) (height s / 2 + yOffset)
                             totalLineHeight blockHeight scale alpha))))"

section \<open>What the calls paint\<close>

text \<open>
  To say what two frames paint, the calls are run on a model of the 2D context, after
  the HTML canvas specification: the drawing state that the calls set, the part of the
  drawing state that \<open>drawFrame\<close> never sets (line caps, shadows, compositing, the
  clip and so on, kept as one value \<open>other\<close>), the stack of saved states, the current
  path, and the surface. The surface is the list of what was painted, each entry with the
  part of the drawing state that painting it reads, so that equal surfaces stand for
  equal pixels. A transformation is kept as a scale and a translation, the only kinds
  the code applies. Colour strings and font sizes are taken to be ones the browser
  accepts, as the inputs of the form produce them.
\<close>

type_synonym xform = "real \<times> real \<times> real \<times> real"

record drawing_state =
  fillStyle :: paint_style
  strokeStyle :: paint_style
  lineWidth :: real
  globalAlpha :: real
  textAlign :: string
  textBaseline :: string
  font :: real
  transform :: xform

datatype path_segment = PathMove real real | PathLine real real

datatype 'o painted =
    Cleared real real real real xform
  | FilledRect real real real real paint_style real xform 'o
  | StrokedPath "path_segment list" paint_style real real xform 'o
  | FilledText string real real paint_style real string string real xform 'o

record 'o canvas =
  current :: drawing_state
  other :: 'o
  saved :: "(drawing_state \<times> 'o) list"
  path :: "path_segment list"
  surface :: "'o painted list"

definition translated :: "real \<Rightarrow> real \<Rightarrow> xform \<Rightarrow> xform" where
  "translated dx dy m = (case m of (sx, sy, tx, ty) \<Rightarrow> (sx, sy, tx + sx * dx, ty + sy * dy))"

definition scaled :: "real \<Rightarrow> real \<Rightarrow> xform \<Rightarrow> xform" where
  "scaled fx fy m = (case m of (sx, sy, tx, ty) \<Rightarrow> (sx * fx, sy * fy, tx, ty))"

definition devicePoint :: "xform \<Rightarrow> real \<Rightarrow> real \<Rightarrow> real \<times> real" where
  "devicePoint m x y = (case m of (sx, sy, tx, ty) \<Rightarrow> (sx * x + tx, sy * y + ty))"

definition paint :: "'o painted \<Rightarrow> 'o canvas \<Rightarrow> 'o canvas" where
  "paint e c = c\<lparr>surface := surface c @ [e]\<rparr>"

text \<open>
  One call. A rectangle of width or height 0 paints nothing; a global alpha outside
  \<open>[0, 1]\<close> and a line width that is not positive are ignored; \<open>restore\<close> on an empty
  stack does nothing; \<open>lineTo\<close> on an empty path only moves.
\<close>

fun exec :: "canvas_call \<Rightarrow> 'o canvas \<Rightarrow> 'o canvas" where
  "exec (ClearRect x y w h) c =
     (if w = 0 \<or> h = 0 then c else paint (Cleared x y w h (transform (current c))) c)"
| "exec (SetFillStyle st) c = c\<lparr>current := (current c)\<lparr>fillStyle := st\<rparr>\<rparr>"
| "exec (FillRect x y w h) c =
     (if w = 0 \<or> h = 0 then c
      else paint (FilledRect x y w h (fillStyle (current c)) (globalAlpha (current c))
                    (transform (current c)) (other c)) c)"
| "exec BeginPath c = c\<lparr>path := []\<rparr>"
| "exec (MoveTo x y) c =
     (case devicePoint (transform (current c)) x y of
        (dx, dy) \<Rightarrow> c\<lparr>path := path c @ [PathMove dx dy]\<rparr>)"
| "exec (LineTo x y) c =
     (case devicePoint (transform (current c)) x y of
        (dx, dy) \<Rightarrow>
          c\<lparr>path := path c @ [if path c = [] then PathMove dx dy else PathLine dx dy]\<rparr>)"
| "exec (SetStrokeStyle st) c = c\<lparr>current := (current c)\<lparr>strokeStyle := st\<rparr>\<rparr>"
| "exec (SetLineWidth w) c =
     (if 0 < w then c\<lparr>current := (current c)\<lparr>lineWidth := w\<rparr>\<rparr> else c)"
| "exec Stroke c =
     paint (StrokedPath (path c) (strokeStyle (current c)) (lineWidth (current c))
              (globalAlpha (current c)) (transform (current c)) (other c)) c"
| "exec (SetTextAlign a) c = c\<lparr>current := (current c)\<lparr>textAlign := a\<rparr>\<rparr>"
| "exec (SetTextBaseline a) c = c\<lparr>current := (current c)\<lparr>textBaseline := a\<rparr>\<rparr>"
| "exec (SetFont px) c = c\<lparr>current := (current c)\<lparr>font := px\<rparr>\<rparr>"
| "exec Save c = c\<lparr>saved := (current c, other c) # saved c\<rparr>"
| "exec Restore c =
     (case saved c of
        [] \<Rightarrow> c
      | (d, ot) # rest \<Rightarrow> c\<lparr>current := d, other := ot, saved := rest\<rparr>)"
| "exec (SetGlobalAlpha a) c =
     (if 0 \<le> a \<and> a \<le> 1 then c\<lparr>current := (current c)\<lparr>globalAlpha := a\<rparr>\<rparr> else c)"
| "exec (Translate dx dy) c =
     c\<lparr>current := (current c)\<lparr>transform := translated dx dy (transform (current c))\<rparr>\<rparr>"
| "exec (Scale fx fy) c =
     c\<lparr>current := (current c)\<lparr>transform := scaled fx fy (transform (current c))\<rparr>\<rparr>"
| "exec (FillText str x y) c =
     paint (FilledText str x y (fillStyle (current c)) (font (current c))
              (textAlign (current c)) (textBaseline (current c))
              (globalAlpha (current c)) (transform (current c)) (other c)) c"

fun run :: "canvas_call list \<Rightarrow> 'o canvas \<Rightarrow> 'o canvas" where
  "run [] c = c"
| "run (call # calls) c = run calls (exec call c)"

text \<open>One invocation of \<open>drawFrame\<close> on the context \<open>c\<close>.\<close>

definition renderFrame :: "Settings \<Rightarrow> real \<Rightarrow> 'o canvas \<Rightarrow> 'o canvas option" where
  "renderFrame s tMs c = map_option (\<lambda>calls. run calls c) (drawFrame s tMs)"

text \<open>
  Two contexts hold the same surface and agree on the drawing state that \<open>drawFrame\<close>
  inherits rather than sets: the global alpha, the transformation and \<open>other\<close>. Fill
  and stroke style, line width, font, text alignment, path and saved states may differ.
\<close>

definition sameSurface :: "'o canvas \<Rightarrow> 'o canvas \<Rightarrow> bool" where
  "sameSurface c1 c2 =
     (surface c1 = surface c2 \<and> other c1 = other c2 \<and>
      globalAlpha (current c1) = globalAlpha (current c2) \<and>
      transform (current c1) = transform (current c2))"

text \<open>
  The depth of the stack of saved states after a list of calls that starts at depth
  \<open>d\<close>; \<open>None\<close> when a \<open>Restore\<close> comes at depth 0.
\<close>

fun depthAfter :: "nat \<Rightarrow> canvas_call list \<Rightarrow> nat option" where
  "depthAfter d [] = Some d"
| "depthAfter d (Save # calls) = depthAfter (Suc d) calls"
| "depthAfter d (Restore # calls) = (case d of 0 \<Rightarrow> None | Suc k \<Rightarrow> depthAfter k calls)"
| "depthAfter d (call # calls) = depthAfter d calls"

text \<open>
  Three notions for the proofs about \<open>run\<close>: a context with further saved states
  below its own, two contexts that differ in their saved states only, and two contexts
  that also agree on the path and on the stroke settings.
\<close>

definition onStack :: "(drawing_state \<times> 'o) list \<Rightarrow> 'o canvas \<Rightarrow> 'o canvas" where
  "onStack base c = c\<lparr>saved := saved c @ base\<rparr>"

definition sameButStack :: "'o canvas \<Rightarrow> 'o canvas \<Rightarrow> bool" where
  "sameButStack c1 c2 =
     (current c1 = current c2 \<and> other c1 = other c2 \<and> path c1 = path c2 \<and>
      surface c1 = surface c2)"

definition sameStroke :: "'o canvas \<Rightarrow> 'o canvas \<Rightarrow> bool" where
  "sameStroke c1 c2 =
     (sameSurface c1 c2 \<and> path c1 = path c2 \<and>
      strokeStyle (current c1) = strokeStyle (current c2) \<and>
      lineWidth (current c1) = lineWidth (current c2))"

text \<open>
  The part of a context that \<open>drawFrame\<close> inherits, together with the saved states, and
  the calls that cannot touch it.
\<close>

fun keepsInherited :: "canvas_call \<Rightarrow> bool" where
  "keepsInherited Save = False"
| "keepsInherited Restore = False"
| "keepsInherited (SetGlobalAlpha a) = False"
| "keepsInherited (Translate dx dy) = False"
| "keepsInherited (Scale fx fy) = False"
| "keepsInherited call = True"

definition inherited :: "'o canvas \<Rightarrow> real \<times> xform \<times> 'o \<times> (drawing_state \<times> 'o) list" where
  "inherited c = (globalAlpha (current c), transform (current c), other c, saved c)"

text \<open>A context as the browser creates it, and one that earlier drawing has left behind.\<close>

definition freshCanvas :: "unit canvas" where
  "freshCanvas =
     \<lparr>current =
        \<lparr>fillStyle = ColorString ''#000000'', strokeStyle = ColorString ''#000000'',
         lineWidth = 1, globalAlpha = 1, textAlign = ''start'',
         textBaseline = ''alphabetic'', font = 10, transform = (1, 1, 0, 0)\<rparr>,
      other = (), saved = [], path = [], surface = []\<rparr>"

definition usedCanvas :: "unit canvas" where
  "usedCanvas =
     freshCanvas
       \<lparr>current :=
          \<lparr>fillStyle = ColorString ''#6ea8fe'', strokeStyle = ColorRgba (Rgba 110 168 254 0.1),
           lineWidth = 4, globalAlpha = 1, textAlign = ''center'',
           textBaseline = ''middle'', font = 48, transform = (1, 1, 0, 0)\<rparr>,
        saved := [(current freshCanvas, ())],
        path := [PathMove 0 768, PathLine 18 770]\<rparr>"

section \<open>The capture session\<close>

text \<open>
  The state of the component between two handlers: its React state (\<open>recording\<close>,
  \<open>blobUrl\<close>, \<open>error\<close>, \<open>progressMs\<close>), its refs, and the animation-frame callbacks
  that are pending in the browser. The one \<open>MediaRecorder\<close> the component holds is kept
  in \<open>recorderRef\<close> with the two properties the code reads. A blob is its bytes and its
  media type; an object URL is kept as the blob it names. State setters are applied in
  the order the handler calls them.
\<close>

datatype recorder_state = Inactive | Recording | Paused

record media_recorder =
  state :: recorder_state
  mimeType :: string

record blob =
  bytes :: "nat list"
  mediaType :: string

record session =
  recording :: bool
  blobUrl :: "blob option"
  error :: "string option"
  progressMs :: real
  recorderRef :: "media_recorder option"
  chunksRef :: "blob list"
  rafRef :: "nat option"
  startTimeRef :: real
  pendingFrames :: "nat list"

text \<open>
  A thrown value: its \<open>message\<close> property when it has one, and what \<open>String\<close> makes of
  it. \<open>describe\<close> is \<^verbatim>\<open>e?.message || String(e)\<close>; an empty message is falsy.
\<close>

record js_error =
  message :: "string option"
  asString :: string

definition describe :: "js_error \<Rightarrow> string" where
  "describe e =
     (case message e of
        None \<Rightarrow> asString e
      | Some m \<Rightarrow> if m = [] then asString e else m)"

text \<open>
  What the browser answers to the calls of \<open>startRecording\<close>: whether the canvas is
  mounted, \<open>captureStream\<close> (a thrown value, or the stream, kept as its frame rate),
  \<open>MediaRecorder.isTypeSupported\<close>, the constructor and \<open>start\<close> of the recorder (each a
  thrown value or the recorder), the clock, and the id \<open>requestAnimationFrame\<close> returns.
\<close>

datatype media_stream = MediaStream real

record platform =
  canvasMounted :: bool
  captureStream :: "real \<Rightarrow> js_error + media_stream"
  isTypeSupported :: "string \<Rightarrow> bool"
  newMediaRecorder :: "media_stream \<Rightarrow> string option \<Rightarrow> js_error + media_recorder"
  startRecorder :: "media_recorder \<Rightarrow> nat \<Rightarrow> js_error + media_recorder"
  performanceNow :: real
  requestAnimationFrame :: nat

definition mimeCandidates :: "string list" where
  "mimeCandidates =
     [''video/webm;codecs=vp9,opus'',
      ''video/webm;codecs=vp8,opus'',
      ''video/webm'',
      ''video/mp4;codecs=h264,aac'']"

text \<open>The \<^verbatim>\<open>catch\<close> block of \<open>startRecording\<close>.\<close>

definition catchBlock :: "js_error \<Rightarrow> session \<Rightarrow> session" where
  "catchBlock e st = st\<lparr>error := Some (describe e), recording := False\<rparr>"

text \<open>
  \<open>startRecording\<close>. The first component of the result is the exception that leaves the
  function, if one does. \<open>captureStream\<close> is called before the \<^verbatim>\<open>try\<close> block; the
  constructor, \<open>start\<close> and \<open>requestAnimationFrame\<close> are called inside it.
\<close>

definition startRecording :: "platform \<Rightarrow> Settings \<Rightarrow> session \<Rightarrow> js_error option \<times> session" where
  "startRecording P s st0 =
     (let st1 = st0\<lparr>error := None\<rparr>;
          st2 = st1\<lparr>blobUrl := None\<rparr>
      in if \<not> canvasMounted P then (None, st2)
         else
           (case captureStream P (fps s) of
              Inl e \<Rightarrow> (Some e, st2)
            | Inr stream \<Rightarrow>
                (let mimeType = (case find (isTypeSupported P) mimeCandidates of
                                   Some m \<Rightarrow> m
                                 | None \<Rightarrow> [])
                 in case newMediaRecorder P stream
                           (if mimeType \<noteq> [] then Some mimeType else None) of
                      Inl e \<Rightarrow> (None, catchBlock e st2)
                    | Inr mr \<Rightarrow>
                        (let st3 = st2\<lparr>recorderRef := Some mr\<rparr>;
                             st4 = st3\<lparr>chunksRef := []\<rparr>;
                             st5 = st4\<lparr>startTimeRef := performanceNow P\<rparr>;
                             st6 = st5\<lparr>progressMs := 0\<rparr>;
                             st7 = st6\<lparr>recording := True\<rparr>
                         in case startRecorder P mr 100 of
                              Inl e \<Rightarrow> (None, catchBlock e st7)
                            | Inr started \<Rightarrow>
                                (None,
                                 st7\<lparr>recorderRef := Some started,
                                     rafRef := Some (requestAnimationFrame P),
                                     pendingFrames :=
                                       pendingFrames st7 @ [requestAnimationFrame P]\<rparr>)))))"

text \<open>
  \<open>stopRecording\<close>. \<open>cancelAnimationFrame\<close> is called when the ref holds a truthy id,
  and \<open>stop\<close> when there is a recorder that is not inactive; \<open>stop\<close> makes it inactive.
\<close>

definition stopRecording :: "session \<Rightarrow> session" where
  "stopRecording st0 =
     (let st1 = (case rafRef st0 of
                   None \<Rightarrow> st0
                 | Some n \<Rightarrow>
                     if n \<noteq> 0 then st0\<lparr>pendingFrames := removeAll n (pendingFrames st0)\<rparr>
                     else st0);
          st2 = st1\<lparr>rafRef := None\<rparr>;
          st3 = (case recorderRef st2 of
                   None \<Rightarrow> st2
                 | Some mr \<Rightarrow>
                     if state mr \<noteq> Inactive
                     then st2\<lparr>recorderRef := Some (mr\<lparr>state := Inactive\<rparr>)\<rparr>
                     else st2)
      in st3\<lparr>recording := False\<rparr>)"

text \<open>
  The handler \<open>ondataavailable\<close> for an event whose \<open>data\<close> is the given blob, if it
  has one, and the handler \<open>onstop\<close> of the recorder \<open>mr\<close>.
\<close>

definition onDataAvailable :: "blob option \<Rightarrow> session \<Rightarrow> session" where
  "onDataAvailable d st =
     (case d of
        None \<Rightarrow> st
      | Some dat \<Rightarrow>
          if 0 < length (bytes dat) then st\<lparr>chunksRef := chunksRef st @ [dat]\<rparr> else st)"

definition onStop :: "media_recorder \<Rightarrow> session \<Rightarrow> session" where
  "onStop mr st =
     (let assembled =
            \<lparr>bytes = concat (map bytes (chunksRef st)),
             mediaType = (if mimeType mr \<noteq> [] then mimeType mr else ''video/webm'')\<rparr>
      in st\<lparr>blobUrl := Some assembled\<rparr>)"

text \<open>The data events of a session, handled in the order the encoder emits them.\<close>

fun deliver :: "blob option list \<Rightarrow> session \<Rightarrow> session" where
  "deliver [] st = st"
| "deliver (d # ds) st = deliver ds (onDataAvailable d st)"

text \<open>
  Following the spec's words: the session is not running when the recording flag is
  down, no tick is pending and the recorder, if there is one, is inactive; it has failed
  with a description when the flag is down and \<open>error\<close> holds the description.
\<close>

definition recorderInactive :: "session \<Rightarrow> bool" where
  "recorderInactive st =
     (case recorderRef st of None \<Rightarrow> True | Some mr \<Rightarrow> state mr = Inactive)"

definition notRunning :: "session \<Rightarrow> bool" where
  "notRunning st = (\<not> recording st \<and> rafRef st = None \<and> recorderInactive st)"

definition failedWith :: "string \<Rightarrow> session \<Rightarrow> bool" where
  "failedWith description st = (\<not> recording st \<and> error st = Some description)"

text \<open>
  A session at rest, a browser in which recording works, one whose \<open>captureStream\<close>
  rejects a negative frame rate with a \<open>NotSupportedError\<close>, and one whose
  \<open>MediaRecorder\<close> constructor throws.
\<close>

definition idle :: session where
  "idle =
     \<lparr>recording = False, blobUrl = None, error = None, progressMs = 0,
      recorderRef = None, chunksRef = [], rafRef = None, startTimeRef = 0,
      pendingFrames = []\<rparr>"

definition notSupported :: js_error where
  "notSupported =
     \<lparr>message = Some ''The operation is not supported.'',
      asString = ''NotSupportedError: The operation is not supported.''\<rparr>"

definition browser :: platform where
  "browser =
     \<lparr>canvasMounted = True,
      captureStream = (\<lambda>rate. if rate < 0 then Inl notSupported else Inr (MediaStream rate)),
      isTypeSupported = (\<lambda>m. m = ''video/webm''),
      newMediaRecorder =
        (\<lambda>stream m. Inr \<lparr>state = Inactive,
                          mimeType = (case m of None \<Rightarrow> [] | Some t \<Rightarrow> t)\<rparr>),
      startRecorder = (\<lambda>mr timeslice. Inr (mr\<lparr>state := Recording\<rparr>)),
      performanceNow = 1000,
      requestAnimationFrame = 1\<rparr>"

definition noEncoder :: platform where
  "noEncoder = browser\<lparr>newMediaRecorder := (\<lambda>stream m. Inl notSupported)\<rparr>"

text \<open>The blobs that a sequence of data events carries, in the order of the events.\<close>

fun fragments :: "blob option list \<Rightarrow> blob list" where
  "fragments [] = []"
| "fragments (None # ds) = fragments ds"
| "fragments (Some dat # ds) = dat # fragments ds"

definition nonEmpty :: "blob \<Rightarrow> bool" where
  "nonEmpty dat = (0 < length (bytes dat))"

section \<open>Properties of the colour utilities\<close>

lemma hash_not_hex: "\<not> isHexDigit CHR ''#''"
  by (simp add: isHexDigit_def)

lemma hexGroups_Some_iff:
  "hexGroups ds = Some m \<longleftrightarrow>
     length ds = 6 \<and> list_all isHexDigit ds \<and> m = (take 2 ds, take 2 (drop 2 ds), drop 4 ds)"
  by (induction ds rule: hexGroups.induct) auto

lemma hexGroups_None_iff: "hexGroups ds = None \<longleftrightarrow> \<not> (length ds = 6 \<and> list_all isHexDigit ds)"
  using hexGroups_Some_iff [of ds] by (cases "hexGroups ds") auto

lemma hexExec_eq:
  "hexExec h = (if acceptsHex h then hexGroups (hexBody h) else None)"
proof (cases h)
  case Nil
  then show ?thesis by (simp add: hexExec_def acceptsHex_def hexBody_def)
next
  case (Cons c cs)
  show ?thesis
  proof (cases "c = CHR ''#''")
    case True
    have whole: "hexGroups (c # cs) = None"
      using True hash_not_hex by (simp add: hexGroups_None_iff)
    show ?thesis
    proof (cases "hexGroups cs")
      case None
      then have "\<not> (length cs = 6 \<and> list_all isHexDigit cs)"
        by (simp add: hexGroups_None_iff)
      then show ?thesis
        using Cons True whole None
        by (simp add: hexExec_def acceptsHex_def hexBody_def)
    next
      case (Some m)
      then have "length cs = 6 \<and> list_all isHexDigit cs"
        by (simp add: hexGroups_Some_iff)
      then show ?thesis
        using Cons True Some by (simp add: hexExec_def acceptsHex_def hexBody_def)
    qed
  next
    case False
    then show ?thesis
      using Cons
      by (auto simp: hexExec_def acceptsHex_def hexBody_def hexGroups_None_iff)
  qed
qed

lemma digitValue_range: "isHexDigit c \<Longrightarrow> 0 \<le> digitValue c \<and> digitValue c < 16"
  by (auto simp: isHexDigit_def digitValue_def)

lemma parseInt16_pair: "parseInt16 [c1, c2] = digitValue c1 * 16 + digitValue c2"
  by (simp add: parseInt16_def)

lemma parseInt16_range:
  assumes "length ds = 2" "list_all isHexDigit ds"
  shows "0 \<le> parseInt16 ds \<and> parseInt16 ds \<le> 255"
proof -
  obtain c1 c2 where ds: "ds = [c1, c2]"
    using assms(1) by (cases ds; cases "tl ds") auto
  have "0 \<le> digitValue c1 \<and> digitValue c1 < 16" "0 \<le> digitValue c2 \<and> digitValue c2 < 16"
    using assms(2) ds digitValue_range by auto
  then show ?thesis unfolding ds parseInt16_pair by linarith
qed

lemma hexToRgb_channels:
  "0 \<le> r (hexToRgb h) \<and> r (hexToRgb h) \<le> 255 \<and>
   0 \<le> g (hexToRgb h) \<and> g (hexToRgb h) \<le> 255 \<and>
   0 \<le> b (hexToRgb h) \<and> b (hexToRgb h) \<le> 255"
proof (cases "hexExec h")
  case None
  then show ?thesis by (simp add: hexToRgb_def)
next
  case (Some m)
  then have acc: "length (hexBody h) = 6" "list_all isHexDigit (hexBody h)"
    and m: "m = (take 2 (hexBody h), take 2 (drop 2 (hexBody h)), drop 4 (hexBody h))"
    by (auto simp: hexExec_eq hexGroups_Some_iff acceptsHex_def split: if_splits)
  have "list_all isHexDigit (take 2 (hexBody h))" "list_all isHexDigit (take 2 (drop 2 (hexBody h)))"
       "list_all isHexDigit (drop 4 (hexBody h))"
    using acc(2) by (auto simp: list_all_iff dest: in_set_takeD in_set_dropD)
  moreover have "length (take 2 (hexBody h)) = 2" "length (take 2 (drop 2 (hexBody h))) = 2"
       "length (drop 4 (hexBody h)) = 2"
    using acc(1) by auto
  ultimately show ?thesis
    using Some m parseInt16_range by (simp add: hexToRgb_def)
qed


lemma hexToRgb_rejected: "\<not> acceptsHex h \<Longrightarrow> hexToRgb h = \<lparr>r = 0, g = 0, b = 0\<rparr>"
  by (simp add: hexToRgb_def hexExec_eq)

lemma hexToRgb_accepted:
  assumes "acceptsHex h"
  shows "hexToRgb h =
           \<lparr>r = parseInt16 (take 2 (hexBody h)),
            g = parseInt16 (take 2 (drop 2 (hexBody h))),
            b = parseInt16 (drop 4 (hexBody h))\<rparr>"
proof -
  have "hexGroups (hexBody h) =
          Some (take 2 (hexBody h), take 2 (drop 2 (hexBody h)), drop 4 (hexBody h))"
    using assms by (simp add: hexGroups_Some_iff acceptsHex_def)
  then show ?thesis
    using assms by (simp add: hexToRgb_def hexExec_eq)
qed

text \<open>
  Claim C4, as the code has it. Every channel \<open>hexToRgb\<close> returns lies in \<open>[0, 255]\<close>.
  An input that is not six hexadecimal digits, with or without a leading \<^verbatim>\<open>#\<close>, gives
  \<open>{r: 0, g: 0, b: 0}\<close> and nothing fails; an input that is gives the three channels
  parsed from its digit pairs.
\<close>

theorem hexToRgb_lenient:
  "(0 \<le> r (hexToRgb h) \<and> r (hexToRgb h) \<le> 255) \<and>
   (0 \<le> g (hexToRgb h) \<and> g (hexToRgb h) \<le> 255) \<and>
   (0 \<le> b (hexToRgb h) \<and> b (hexToRgb h) \<le> 255) \<and>
   (\<not> acceptsHex h \<longrightarrow> hexToRgb h = \<lparr>r = 0, g = 0, b = 0\<rparr>) \<and>
   (acceptsHex h \<longrightarrow>
      hexToRgb h =
        \<lparr>r = parseInt16 (take 2 (hexBody h)),
         g = parseInt16 (take 2 (drop 2 (hexBody h))),
         b = parseInt16 (drop 4 (hexBody h))\<rparr>)"
  using hexToRgb_channels [of h] hexToRgb_rejected [of h] hexToRgb_accepted [of h]
  by blast

theorem hexToRgb_lenient_witness:
  "acceptsHex ''#E7ecff'' \<and> hexToRgb ''#E7ecff'' = \<lparr>r = 231, g = 236, b = 255\<rparr> \<and>
   \<not> acceptsHex ''#e7ecf'' \<and> hexToRgb ''#e7ecf'' = \<lparr>r = 0, g = 0, b = 0\<rparr>"
  using hexToRgb_lenient [of "''#E7ecff''"] hexToRgb_lenient [of "''#e7ecf''"]
  by (simp add: acceptsHex_def hexBody_def isHexDigit_def parseInt16_def digitValue_def)

text \<open>
  The claim as worded takes the \<^verbatim>\<open>#\<close> to be required. Six bare digits do not have the
  shape \<^verbatim>\<open>#RRGGBB\<close>, and still they are parsed rather than mapped to black.
\<close>

theorem hexToRgb_bare_digits_counterexample:
  "\<not> matchesHashRRGGBB ''ff0000'' \<and> hexToRgb ''ff0000'' = \<lparr>r = 255, g = 0, b = 0\<rparr>"
  by (simp add: matchesHashRRGGBB_def hexToRgb_def hexExec_def isHexDigit_def parseInt16_def
      digitValue_def)

lemma hexDigitChar_digitValue:
  "isHexDigit c \<Longrightarrow> hexDigitChar (nat (digitValue c)) = toLowerCase c"
  unfolding isHexDigit_def
  by (elim disjE | simp add: digitValue_def hexDigitChar_def toLowerCase_def)+

lemma toString16Nat_digit: "n < 16 \<Longrightarrow> toString16Nat n = [hexDigitChar n]"
  by (subst toString16Nat.simps) simp

lemma toHex_two_digits:
  assumes "0 \<le> hi" "hi < 16" "0 \<le> lo" "lo < 16"
  shows "toHex (hi * 16 + lo) = [hexDigitChar (nat hi), hexDigitChar (nat lo)]"
proof (cases "hi = 0")
  case True
  then show ?thesis
    using assms
    by (simp add: toHex_def toString16_def padStart_def toString16Nat_digit hexDigitChar_def)
next
  case False
  define n where "n = nat (hi * 16 + lo)"
  have "n = nat hi * 16 + nat lo"
    using assms unfolding n_def by (simp add: nat_add_distrib nat_mult_distrib)
  then have n: "\<not> n < 16" "n div 16 = nat hi" "n mod 16 = nat lo" "nat hi < 16"
    using assms False by auto
  have "toString16Nat n = [hexDigitChar (nat hi), hexDigitChar (nat lo)]"
    using n by (subst toString16Nat.simps) (simp add: toString16Nat_digit)
  then show ?thesis
    using assms by (simp add: toHex_def toString16_def padStart_def n_def)
qed

lemma toHex_parseInt16:
  assumes "isHexDigit c1" "isHexDigit c2"
  shows "toHex (parseInt16 [c1, c2]) = [toLowerCase c1, toLowerCase c2]"
  using assms digitValue_range [of c1] digitValue_range [of c2]
  by (simp add: parseInt16_pair toHex_two_digits hexDigitChar_digitValue)

text \<open>
  Claim C8. For a colour string \<open>h\<close> made of \<^verbatim>\<open>#\<close> and six hexadecimal digits,
  \<open>rgbToHex\<close> applied to the channels of \<open>hexToRgb h\<close> gives \<open>h\<close> in lower case: a
  leading \<^verbatim>\<open>#\<close> and two zero-padded digits per channel.
\<close>

theorem rgbToHex_hexToRgb:
  assumes "matchesHashRRGGBB h"
  shows "rgbToHex (r (hexToRgb h)) (g (hexToRgb h)) (b (hexToRgb h)) = map toLowerCase h"
proof -
  obtain c1 c2 c3 c4 c5 c6 where h: "h = [CHR ''#'', c1, c2, c3, c4, c5, c6]"
    and hex: "isHexDigit c1" "isHexDigit c2" "isHexDigit c3"
             "isHexDigit c4" "isHexDigit c5" "isHexDigit c6"
    using assms
    by (auto simp: matchesHashRRGGBB_def length_Suc_conv eval_nat_numeral split: list.splits)
  have "hexToRgb h =
          \<lparr>r = parseInt16 [c1, c2], g = parseInt16 [c3, c4], b = parseInt16 [c5, c6]\<rparr>"
    using hex by (simp add: h hexToRgb_def hexExec_def)
  moreover have "toLowerCase CHR ''#'' = CHR ''#''"
    by (simp add: toLowerCase_def)
  ultimately show ?thesis
    using hex by (simp add: rgbToHex_def toHex_parseInt16 h)
qed

theorem rgbToHex_hexToRgb_witness:
  "matchesHashRRGGBB ''#E7ECff'' \<and>
   rgbToHex (r (hexToRgb ''#E7ECff'')) (g (hexToRgb ''#E7ECff'')) (b (hexToRgb ''#E7ECff''))
     = ''#e7ecff''"
proof -
  have m: "matchesHashRRGGBB ''#E7ECff''"
    by (simp add: matchesHashRRGGBB_def isHexDigit_def)
  show ?thesis
    using m rgbToHex_hexToRgb [OF m] by (simp add: toLowerCase_def)
qed

section \<open>Properties of the progress and of the animation arms\<close>

lemma clamp_unit: "0 \<le> clamp (x::real) 0 1 \<and> clamp x 0 1 \<le> 1"
  by (simp add: clamp_def)

lemma clamp_mono: "(x::real) \<le> y \<Longrightarrow> clamp x lo hi \<le> clamp y lo hi"
  by (auto simp: clamp_def max_def min_def)

text \<open>
  Claim C6. For settings with a positive duration the progress is a number at every
  elapsed time, it does not decrease when the elapsed time grows, and it is exactly 1
  from \<open>durationSeconds \<times> 1000\<close> milliseconds on.
\<close>

theorem progress_nondecreasing:
  assumes "0 < durationSeconds s" and "t1 \<le> t2"
  shows "\<exists>p1 p2. progress s t1 = Some p1 \<and> progress s t2 = Some p2 \<and> p1 \<le> p2 \<and>
           (durationSeconds s * 1000 \<le> t1 \<longrightarrow> p1 = 1) \<and>
           (durationSeconds s * 1000 \<le> t2 \<longrightarrow> p2 = 1)"
proof -
  define total where "total = durationSeconds s * 1000"
  have total: "0 < total"
    using assms(1) by (simp add: total_def)
  have p: "progress s t = Some (clamp (t / total) 0 1)" for t
    using total by (simp add: progress_def total_def)
  have "t1 / total \<le> t2 / total"
    using assms(2) total by (simp add: divide_right_mono)
  then have mono: "clamp (t1 / total) 0 1 \<le> clamp (t2 / total) 0 1"
    by (rule clamp_mono)
  have sat: "clamp (t / total) 0 1 = 1" if "total \<le> t" for t
  proof -
    have "1 \<le> t / total"
      using that total by simp
    then show ?thesis by (simp add: clamp_def)
  qed
  show ?thesis
    using p mono sat by (auto simp: total_def)
qed

theorem progress_nondecreasing_witness:
  "0 < durationSeconds DEFAULTS \<and> (3000::real) \<le> 7000 \<and>
   progress DEFAULTS 3000 = Some (1 / 2) \<and> progress DEFAULTS 7000 = Some 1"
  using progress_nondecreasing [of DEFAULTS 3000 7000]
  by (simp add: DEFAULTS_def progress_def clamp_def)

lemma easeOutCubic_unit: "0 \<le> t \<Longrightarrow> t \<le> 1 \<Longrightarrow> 0 \<le> easeOutCubic t \<and> easeOutCubic t \<le> 1"
proof -
  assume t: "0 \<le> t" "t \<le> 1"
  have "0 \<le> (1 - t) ^ 3" using t by simp
  moreover have "(1 - t) ^ 3 \<le> 1" using t by (simp add: power_le_one)
  ultimately show ?thesis by (simp add: easeOutCubic_def)
qed

lemma easeInCubic_unit: "0 \<le> t \<Longrightarrow> t \<le> 1 \<Longrightarrow> 0 \<le> easeInCubic t \<and> easeInCubic t \<le> 1"
proof -
  assume t: "0 \<le> t" "t \<le> 1"
  have eq: "easeInCubic t = t ^ 3" by (simp add: easeInCubic_def power3_eq_cube)
  have "0 \<le> t ^ 3" using t by simp
  moreover have "t ^ 3 \<le> 1" using t by (simp add: power_le_one)
  ultimately show ?thesis by (simp add: eq)
qed

lemma fadeAlpha_le_one: "fadeAlpha p \<le> 1"
proof -
  define a where "a = easeOutCubic (clamp (p * 2) 0 1)"
  define c where "c = easeInCubic (clamp ((p - 0.5) * 2) 0 1)"
  have a: "0 \<le> a \<and> a \<le> 1"
    unfolding a_def using clamp_unit by (intro easeOutCubic_unit) auto
  have c: "0 \<le> c \<and> c \<le> 1"
    unfolding c_def using clamp_unit by (intro easeInCubic_unit) auto
  have "a * (1 - c) \<le> 1 * 1"
    using a c by (intro mult_mono) auto
  then show ?thesis
    by (simp add: fadeAlpha_def a_def c_def)
qed

lemma fadeAlpha_half: "fadeAlpha (1 / 2) = 1"
  by (simp add: fadeAlpha_def clamp_def easeOutCubic_def easeInCubic_def)

lemma fadeAlpha_before_half:
  assumes "p < 1 / 2"
  shows "fadeAlpha p < 1"
proof -
  define u where "u = clamp (p * 2) 0 1"
  have u: "0 \<le> u" "u < 1"
    using assms by (auto simp: u_def clamp_def)
  have "0 < (1 - u) ^ 3"
    using u by simp
  then have "easeOutCubic u < 1"
    by (simp add: easeOutCubic_def)
  moreover have "clamp ((p - 0.5) * 2) 0 1 = 0"
    using assms by (simp add: clamp_def)
  ultimately show ?thesis
    by (simp add: fadeAlpha_def u_def easeInCubic_def)
qed

lemma fadeAlpha_after_half:
  assumes "1 / 2 < p"
  shows "fadeAlpha p < 1"
proof -
  define v where "v = clamp ((p - 0.5) * 2) 0 1"
  have v: "0 < v" "v \<le> 1"
    using assms by (auto simp: v_def clamp_def)
  have "0 < v ^ 3"
    using v by simp
  then have "0 < easeInCubic v"
    by (simp add: easeInCubic_def power3_eq_cube)
  moreover have "clamp (p * 2) 0 1 = 1"
    using assms by (simp add: clamp_def)
  ultimately show ?thesis
    by (simp add: fadeAlpha_def v_def easeOutCubic_def)
qed

text \<open>
  Claim C7. The alpha of the fade animation is exactly 0 at progress 0 and at progress 1,
  and its value at progress 0.5 is a maximum: no progress gives a larger alpha, and every
  other progress gives a strictly smaller one.
\<close>

theorem fade_boundary:
  "fadeAlpha 0 = 0 \<and> fadeAlpha 1 = 0 \<and>
   (\<forall>p. fadeAlpha p \<le> fadeAlpha (1 / 2)) \<and>
   (\<forall>p. p \<noteq> 1 / 2 \<longrightarrow> fadeAlpha p < fadeAlpha (1 / 2))"
proof -
  have "fadeAlpha 0 = 0"
    by (simp add: fadeAlpha_def clamp_def easeOutCubic_def)
  moreover have "fadeAlpha 1 = 0"
    by (simp add: fadeAlpha_def clamp_def easeOutCubic_def easeInCubic_def)
  moreover have "fadeAlpha p < fadeAlpha (1 / 2)" if "p \<noteq> 1 / 2" for p
    using that fadeAlpha_before_half [of p] fadeAlpha_after_half [of p]
    by (cases "p < 1 / 2") (auto simp: fadeAlpha_half)
  ultimately show ?thesis
    using fadeAlpha_le_one by (simp add: fadeAlpha_half)
qed

theorem fade_boundary_witness:
  "fadeAlpha 0 = 0 \<and> fadeAlpha 1 = 0 \<and> fadeAlpha (1 / 4) = 7 / 8 \<and>
   fadeAlpha (1 / 4) < fadeAlpha (1 / 2)"
proof -
  have "fadeAlpha (1 / 4) = 7 / 8"
    by (simp add: fadeAlpha_def clamp_def easeOutCubic_def easeInCubic_def power3_eq_cube)
  moreover have "(1 / 4 :: real) \<noteq> 1 / 2"
    by simp
  ultimately show ?thesis
    using fade_boundary by blast
qed

lemma typewriterVisible_length:
  "length (typewriterVisible txt p) = min (length txt) (nat \<lfloor>p * (real (length txt) + 6)\<rfloor>)"
  by (simp add: typewriterVisible_def Let_def min_def max_def)

text \<open>
  Claim C5. The length of the text the typewriter animation reveals does not decrease
  when the progress grows, never exceeds the length of the text, and is the whole text
  from progress \<open>len / (len + 6)\<close> on, so in particular at progress 1.
\<close>

theorem typewriter_reveal:
  "(p \<le> q \<longrightarrow> length (typewriterVisible txt p) \<le> length (typewriterVisible txt q)) \<and>
   length (typewriterVisible txt p) \<le> length txt \<and>
   (real (length txt) / (real (length txt) + 6) \<le> p \<longrightarrow> typewriterVisible txt p = txt) \<and>
   typewriterVisible txt 1 = txt"
proof -
  define n where "n = real (length txt) + 6"
  have n: "0 < n" by (simp add: n_def)
  have mono: "length (typewriterVisible txt p) \<le> length (typewriterVisible txt q)" if "p \<le> q"
  proof -
    have "p * n \<le> q * n"
      using that n by (simp add: mult_right_mono)
    then have "nat \<lfloor>p * n\<rfloor> \<le> nat \<lfloor>q * n\<rfloor>"
      by (intro nat_mono floor_mono)
    then show ?thesis
      by (simp add: typewriterVisible_length n_def min_le_iff_disj)
  qed
  have full: "typewriterVisible txt p' = txt" if "real (length txt) / n \<le> p'" for p'
  proof -
    have "real (length txt) \<le> p' * n"
      using that n by (simp add: pos_divide_le_eq)
    then have "int (length txt) \<le> \<lfloor>p' * n\<rfloor>"
      by (simp add: le_floor_iff)
    then show ?thesis
      by (simp add: typewriterVisible_def Let_def n_def)
  qed
  have "real (length txt) / n \<le> 1"
    using n by (simp add: n_def)
  then have "typewriterVisible txt 1 = txt"
    by (rule full)
  then show ?thesis
    using mono full by (simp add: typewriterVisible_length n_def)
qed

theorem typewriter_reveal_witness:
  "(1 / 4 :: real) \<le> 1 / 2 \<and>
   typewriterVisible ''Hello, world!'' (1 / 4) = ''Hell'' \<and>
   typewriterVisible ''Hello, world!'' (1 / 2) = ''Hello, wo'' \<and>
   typewriterVisible ''Hello, world!'' (3 / 4) = ''Hello, world!''"
  using typewriter_reveal [of "1 / 4" "1 / 2" "''Hello, world!''"]
    typewriter_reveal [of "3 / 4" 1 "''Hello, world!''"]
  by (simp add: typewriterVisible_def)

section \<open>Properties of the frame renderer\<close>

lemma progress_defined:
  "durationSeconds s \<noteq> 0 \<or> tMs \<noteq> 0 \<Longrightarrow> \<exists>p. progress s tMs = Some p \<and> 0 \<le> p \<and> p \<le> 1"
  by (auto simp: progress_def clamp_def)

lemma withAlpha_accent: "withAlpha ''#6ea8fe'' a = Rgba 110 168 254 (clamp a 0 1)"
  by (simp add: withAlpha_def hexToRgb_def hexExec_def isHexDigit_def parseInt16_def
      digitValue_def)

lemma progressBar_calls:
  "progressBar s p =
     [SetFillStyle (ColorRgba (Rgba 110 168 254 0.35)),
      FillRect 24 (height s - 30) (width s - 48) 6,
      SetFillStyle (ColorString ''#6ea8fe''),
      FillRect 24 (height s - 30) (real_of_int \<lfloor>(width s - 48) * p\<rfloor>) 6]"
  by (simp add: progressBar_def Let_def withAlpha_accent clamp_def)

lemma drawFrame_ends_with_bar:
  assumes "animation s \<noteq> Typewriter" and "progress s tMs = Some p"
  shows "\<exists>before. drawFrame s tMs = Some (before @ progressBar s p)"
  using assms by (cases "animation s") (simp_all add: drawFrame_def textAndBar_def Let_def)

text \<open>
  Claim C1, as the code has it. For the animations fade, slide and zoom, at every elapsed
  time at which the progress is a number, \<open>drawFrame\<close> ends with the progress bar: the
  track, a rectangle in the accent colour at alpha 0.35 that spans the frame width less a
  margin of 24 on each side, and over it a rectangle in the opaque accent colour whose
  width is \<open>progress \<times> trackWidth\<close> rounded down to a whole number.
\<close>

theorem drawFrame_progress_bar:
  assumes "animation s \<noteq> Typewriter" and "durationSeconds s \<noteq> 0 \<or> tMs \<noteq> 0"
  shows "\<exists>before p. progress s tMs = Some p \<and> 0 \<le> p \<and> p \<le> 1 \<and>
           drawFrame s tMs =
             Some (before @
               [SetFillStyle (ColorRgba (Rgba 110 168 254 0.35)),
                FillRect 24 (height s - 30) (width s - 48) 6,
                SetFillStyle (ColorString ''#6ea8fe''),
                FillRect 24 (height s - 30) (real_of_int \<lfloor>(width s - 48) * p\<rfloor>) 6])"
proof -
  obtain p where p: "progress s tMs = Some p" "0 \<le> p" "p \<le> 1"
    using progress_defined [OF assms(2)] by blast
  obtain before where "drawFrame s tMs = Some (before @ progressBar s p)"
    using drawFrame_ends_with_bar [OF assms(1) p(1)] by blast
  then show ?thesis
    using p by (auto simp: progressBar_calls)
qed

lemma drawFrame_last_bar:
  assumes "animation s \<noteq> Typewriter" and "progress s tMs = Some p"
  shows "map_option last (drawFrame s tMs) =
           Some (FillRect 24 (height s - 30) (real_of_int \<lfloor>(width s - 48) * p\<rfloor>) 6)"
proof -
  obtain before where "drawFrame s tMs = Some (before @ progressBar s p)"
    using drawFrame_ends_with_bar [OF assms] by blast
  then show ?thesis
    by (simp add: progressBar_calls)
qed

lemma drawFrame_typewriter_last:
  assumes "animation s = Typewriter" and "progress s tMs = Some p"
  shows "map_option last (drawFrame s tMs) = Some Restore"
  using assms by (simp add: drawFrame_def drawLines_def Let_def)

theorem drawFrame_progress_bar_witness:
  "animation DEFAULTS \<noteq> Typewriter \<and> durationSeconds DEFAULTS \<noteq> 0 \<and>
   progress DEFAULTS 3000 = Some (1 / 2) \<and>
   map_option (\<lambda>calls. drop (length calls - 4) calls) (drawFrame DEFAULTS 3000) =
     Some [SetFillStyle (ColorRgba (Rgba 110 168 254 0.35)),
           FillRect 24 1250 672 6,
           SetFillStyle (ColorString ''#6ea8fe''),
           FillRect 24 1250 336 6]"
proof -
  have a: "animation DEFAULTS \<noteq> Typewriter"
    by (simp add: DEFAULTS_def)
  have d0: "durationSeconds DEFAULTS \<noteq> 0"
    by (simp add: DEFAULTS_def)
  then have d: "durationSeconds DEFAULTS \<noteq> 0 \<or> (3000::real) \<noteq> 0"
    by simp
  have p: "progress DEFAULTS 3000 = Some (1 / 2)"
    by (simp add: progress_def DEFAULTS_def clamp_def)
  obtain before q where q: "progress DEFAULTS 3000 = Some q"
    and f: "drawFrame DEFAULTS 3000 =
             Some (before @
               [SetFillStyle (ColorRgba (Rgba 110 168 254 0.35)),
                FillRect 24 (height DEFAULTS - 30) (width DEFAULTS - 48) 6,
                SetFillStyle (ColorString ''#6ea8fe''),
                FillRect 24 (height DEFAULTS - 30)
                  (real_of_int \<lfloor>(width DEFAULTS - 48) * q\<rfloor>) 6])"
    using drawFrame_progress_bar [OF a d] by blast
  have q': "q = 1 / 2"
    using p q by simp
  have "drop (length before) (before @ xs) = xs" for xs :: "canvas_call list"
    by simp
  then show ?thesis
    using a d0 p f unfolding q' by (simp add: DEFAULTS_def)
qed

text \<open>
  The claim as worded fails twice. With the typewriter animation the last call of the
  frame is the \<open>Restore\<close> that closes the text block: the arm returns before the
  progress bar. And with the default settings at 1 ms the filled rectangle has width 0,
  while \<open>progress \<times> trackWidth\<close> is \<open>672 / 6000\<close>.
\<close>

theorem drawFrame_progress_bar_counterexample:
  "map_option last (drawFrame (DEFAULTS\<lparr>animation := Typewriter\<rparr>) 3000) = Some Restore \<and>
   progress DEFAULTS 1 = Some (1 / 6000) \<and>
   map_option last (drawFrame DEFAULTS 1) = Some (FillRect 24 1250 0 6) \<and>
   (1 / 6000) * (width DEFAULTS - 24 * 2) \<noteq> (0::real)"
proof -
  have "progress (DEFAULTS\<lparr>animation := Typewriter\<rparr>) 3000 = Some (1 / 2)"
    by (simp add: progress_def DEFAULTS_def clamp_def)
  then have tw:
    "map_option last (drawFrame (DEFAULTS\<lparr>animation := Typewriter\<rparr>) 3000) = Some Restore"
    by (rule drawFrame_typewriter_last [rotated]) simp
  have p: "progress DEFAULTS 1 = Some (1 / 6000)"
    by (simp add: progress_def DEFAULTS_def clamp_def)
  have "animation DEFAULTS \<noteq> Typewriter"
    by (simp add: DEFAULTS_def)
  then have "map_option last (drawFrame DEFAULTS 1) =
      Some (FillRect 24 (height DEFAULTS - 30)
             (real_of_int \<lfloor>(width DEFAULTS - 48) * (1 / 6000)\<rfloor>) 6)"
    using p by (rule drawFrame_last_bar)
  then have bar: "map_option last (drawFrame DEFAULTS 1) = Some (FillRect 24 1250 0 6)"
    by (simp add: DEFAULTS_def)
  show ?thesis
    using tw p bar by (simp add: DEFAULTS_def)
qed

section \<open>Two invocations paint the same\<close>

lemma run_append: "run (xs @ ys) c = run ys (run xs c)"
  by (induction xs arbitrary: c) simp_all

lemma exec_onStack:
  "call = Restore \<longrightarrow> saved c \<noteq> [] \<Longrightarrow> exec call (onStack base c) = onStack base (exec call c)"
  by (cases call) (auto simp: onStack_def paint_def split: list.splits prod.splits)

lemma depthAfter_step:
  assumes "depthAfter (length (saved c)) (call # calls) \<noteq> None"
  shows "(call = Restore \<longrightarrow> saved c \<noteq> []) \<and>
         depthAfter (length (saved (exec call c))) calls \<noteq> None"
  using assms
  by (cases call) (auto simp: paint_def split: list.splits prod.splits nat.splits)

lemma run_onStack:
  "depthAfter (length (saved c)) calls \<noteq> None \<Longrightarrow>
     run calls (onStack base c) = onStack base (run calls c)"
proof (induction calls arbitrary: c)
  case Nil
  then show ?case by simp
next
  case (Cons call calls)
  from depthAfter_step [OF Cons.prems]
  have ok: "call = Restore \<longrightarrow> saved c \<noteq> []"
    and rest: "depthAfter (length (saved (exec call c))) calls \<noteq> None"
    by simp_all
  show ?case
    using Cons.IH [OF rest] exec_onStack [OF ok] by simp
qed

lemma sameButStack_run:
  assumes "sameButStack c1 c2" and "depthAfter 0 calls \<noteq> None"
  shows "surface (run calls c1) = surface (run calls c2)"
proof -
  define c0 where "c0 = c1\<lparr>saved := []\<rparr>"
  have c1: "c1 = onStack (saved c1) c0"
    by (simp add: c0_def onStack_def)
  have c2: "c2 = onStack (saved c2) c0"
    using assms(1) by (simp add: c0_def onStack_def sameButStack_def)
  have d: "depthAfter (length (saved c0)) calls \<noteq> None"
    using assms(2) by (simp add: c0_def)
  have "surface (run calls (onStack b c0)) = surface (run calls c0)" for b
    using run_onStack [OF d, of b] by (simp add: onStack_def)
  then show ?thesis
    using c1 c2 by metis
qed


lemma background_same:
  assumes "sameSurface c1 c2"
  shows "sameSurface (run [ClearRect x y w h, SetFillStyle st, FillRect x' y' w' h'] c1)
                     (run [ClearRect x y w h, SetFillStyle st, FillRect x' y' w' h'] c2)"
  using assms by (simp add: sameSurface_def paint_def)

lemma wavePath_same:
  assumes "sameSurface c1 c2" and "path c1 = path c2"
  shows "sameSurface (run (wavePath x w y phase amplitude) c1)
                     (run (wavePath x w y phase amplitude) c2) \<and>
         path (run (wavePath x w y phase amplitude) c1) =
         path (run (wavePath x w y phase amplitude) c2)"
  using assms
proof (induction x w y phase amplitude arbitrary: c1 c2 rule: wavePath.induct)
  case (1 x w y phase amplitude)
  show ?case
  proof (cases "x \<le> w")
    case False
    then show ?thesis
      using "1.prems" by (simp add: wavePath.simps [of x])
  next
    case True
    define yy where "yy = y + sin (phase + x * 0.01) * amplitude"
    define call where "call = (if x = 0 then MoveTo 0 yy else LineTo x yy)"
    have unfold: "wavePath x w y phase amplitude = call # wavePath (x + 18) w y phase amplitude"
      using True by (simp add: wavePath.simps [of x] call_def yy_def)
    have step: "sameSurface (exec call c1) (exec call c2) \<and> path (exec call c1) = path (exec call c2)"
      using "1.prems" by (auto simp: call_def sameSurface_def split: prod.splits)
    show ?thesis
      unfolding unfold using "1.IH" [OF True refl, of "exec call c1" "exec call c2"] step
      by (simp add: yy_def call_def)
  qed
qed

lemma wave_same:
  assumes "sameSurface c1 c2"
  shows "sameStroke (run (wave s tMs i) c1) (run (wave s tMs i) c2)"
proof -
  define phase where "phase = (tMs / 1000) * (0.2 + real i * 0.05)"
  define y where "y = height s * (0.2 + real i * 0.2) + sin phase * 10"
  define amplitude where "amplitude = 14 + real i * 6"
  define d1 where "d1 = run (wavePath 0 (width s) y phase amplitude) (exec BeginPath c1)"
  define d2 where "d2 = run (wavePath 0 (width s) y phase amplitude) (exec BeginPath c2)"
  have "sameSurface (exec BeginPath c1) (exec BeginPath c2)"
       "path (exec BeginPath c1) = path (exec BeginPath c2)"
    using assms by (simp_all add: sameSurface_def)
  then have d: "sameSurface d1 d2 \<and> path d1 = path d2"
    unfolding d1_def d2_def by (rule wavePath_same)
  have w: "0 < 2 + real i"
    by simp
  have "sameStroke (run [SetStrokeStyle st, SetLineWidth (2 + real i), Stroke] d1)
                   (run [SetStrokeStyle st, SetLineWidth (2 + real i), Stroke] d2)" for st
    using d w by (simp add: sameStroke_def sameSurface_def paint_def)
  then show ?thesis
    by (simp add: wave_def Let_def run_append d1_def d2_def phase_def y_def amplitude_def)
qed

lemma sameStroke_sameSurface: "sameStroke c1 c2 \<Longrightarrow> sameSurface c1 c2"
  by (simp add: sameStroke_def)

lemma wavesLoop_unfold: "wavesLoop s tMs 0 = wave s tMs 0 @ wave s tMs 1 @ wave s tMs 2"
  by (simp add: wavesLoop.simps numeral_2_eq_2)

lemma wavesLoop_same:
  assumes "sameSurface c1 c2"
  shows "sameStroke (run (wavesLoop s tMs 0) c1) (run (wavesLoop s tMs 0) c2)"
  unfolding wavesLoop_unfold run_append
  by (intro wave_same sameStroke_sameSurface assms)

lemma textSetup_same:
  assumes "sameStroke c1 c2"
  shows "sameButStack
           (run [SetFillStyle st, SetTextAlign al, SetTextBaseline bl, SetFont px] c1)
           (run [SetFillStyle st, SetTextAlign al, SetTextBaseline bl, SetFont px] c2)"
  using assms
  by (auto simp: sameStroke_def sameSurface_def sameButStack_def intro!: drawing_state.equality)

lemma depthAfter_append:
  "depthAfter d (xs @ ys) = Option.bind (depthAfter d xs) (\<lambda>k. depthAfter k ys)"
  by (induction d xs rule: depthAfter.induct) (simp_all split: nat.splits)

lemma depthAfter_drawLinesLoop: "depthAfter d (drawLinesLoop lines i lineHeight) = Some d"
proof (induction lines i lineHeight rule: drawLinesLoop.induct)
  case (1 lines i lineHeight)
  then show ?case
    by (subst drawLinesLoop.simps) (simp add: Let_def)
qed

lemma depthAfter_drawLines:
  "depthAfter d (drawLines lines x y lineHeight blockHeight scale alpha) = Some d"
  by (simp add: drawLines_def depthAfter_append depthAfter_drawLinesLoop)

lemma depthAfter_progressBar: "depthAfter d (progressBar s p) = Some d"
  by (simp add: progressBar_def Let_def)

lemma depthAfter_textAndBar:
  "depthAfter d (textAndBar s p lines totalLineHeight blockHeight alpha yOffset scale) = Some d"
  by (simp add: textAndBar_def depthAfter_append depthAfter_drawLines depthAfter_progressBar)

lemma renderFrame_same_surface:
  assumes "sameSurface c1 c2"
  shows "map_option surface (renderFrame s tMs c1) = map_option surface (renderFrame s tMs c2)"
proof (cases "progress s tMs")
  case None
  then show ?thesis
    by (simp add: renderFrame_def drawFrame_def)
next
  case (Some p)
  define bg where "bg = [ClearRect 0 0 (width s) (height s),
      SetFillStyle (LinearGradient 0 0 0 (height s)
        [(0, background s), (1, shade (background s) (- 12))]),
      FillRect 0 0 (width s) (height s)]"
  define styles where "styles = [SetFillStyle (ColorString (textColor s)),
      SetTextAlign ''center'', SetTextBaseline ''middle'', SetFont (fontSize s)]"
  obtain body where frame: "drawFrame s tMs = Some (bg @ wavesLoop s tMs 0 @ styles @ body)"
    and depth: "depthAfter 0 body = Some 0"
    using Some
    by (cases "animation s")
       (simp_all add: drawFrame_def bg_def styles_def Let_def depthAfter_textAndBar
          depthAfter_drawLines)
  have "sameSurface (run bg c1) (run bg c2)"
    unfolding bg_def using assms by (rule background_same)
  then have "sameStroke (run (wavesLoop s tMs 0) (run bg c1)) (run (wavesLoop s tMs 0) (run bg c2))"
    by (rule wavesLoop_same)
  then have "sameButStack (run styles (run (wavesLoop s tMs 0) (run bg c1)))
                          (run styles (run (wavesLoop s tMs 0) (run bg c2)))"
    unfolding styles_def by (rule textSetup_same)
  then have "surface (run body (run styles (run (wavesLoop s tMs 0) (run bg c1)))) =
             surface (run body (run styles (run (wavesLoop s tMs 0) (run bg c2))))"
    using depth by (intro sameButStack_run) simp_all
  then show ?thesis
    by (simp add: renderFrame_def frame run_append)
qed

lemma exec_keepsInherited: "keepsInherited call \<Longrightarrow> inherited (exec call c) = inherited c"
  by (cases call) (auto simp: inherited_def paint_def split: prod.splits)

lemma run_keepsInherited: "list_all keepsInherited calls \<Longrightarrow> inherited (run calls c) = inherited c"
  by (induction calls arbitrary: c) (simp_all add: exec_keepsInherited)

lemma wavePath_keepsInherited: "list_all keepsInherited (wavePath x w y phase amplitude)"
proof (induction x w y phase amplitude rule: wavePath.induct)
  case (1 x w y phase amplitude)
  then show ?case
    by (subst wavePath.simps) (simp add: Let_def)
qed

lemma wavesLoop_keepsInherited: "list_all keepsInherited (wavesLoop s tMs 0)"
  by (simp add: wavesLoop_unfold wave_def Let_def wavePath_keepsInherited)

lemma progressBar_keepsInherited: "list_all keepsInherited (progressBar s p)"
  by (simp add: progressBar_def Let_def)

lemma depthAfter_length:
  "depthAfter (length (saved c)) calls = Some k \<Longrightarrow> length (saved (run calls c)) = k"
proof (induction calls arbitrary: c)
  case Nil
  then show ?case by simp
next
  case (Cons call calls)
  then show ?case
    by (cases call) (auto simp: paint_def split: list.splits prod.splits nat.splits if_splits)
qed

lemma run_bracket:
  assumes "depthAfter 0 inner = Some 0"
  shows "inherited (run (Save # inner @ [Restore]) c) = inherited c"
proof -
  define c0 where "c0 = c\<lparr>saved := []\<rparr>"
  define base where "base = (current c, other c) # saved c"
  have start: "exec Save c = onStack base c0"
    by (simp add: c0_def base_def onStack_def)
  have d: "depthAfter (length (saved c0)) inner = Some 0"
    using assms by (simp add: c0_def)
  then have "run inner (onStack base c0) = onStack base (run inner c0)"
    by (intro run_onStack) simp
  then have "saved (run inner (exec Save c)) = saved (run inner c0) @ base"
    unfolding start by (simp add: onStack_def)
  moreover have "saved (run inner c0) = []"
    using depthAfter_length [OF d] by simp
  ultimately have "saved (run inner (exec Save c)) = base"
    by simp
  then have "inherited (exec Restore (run inner (exec Save c))) = inherited c"
    by (simp add: inherited_def base_def)
  then show ?thesis
    by (simp add: run_append)
qed

lemma drawLines_inherited:
  "inherited (run (drawLines lines x y lineHeight blockHeight scale alpha) c) = inherited c"
proof -
  have "depthAfter 0 ([Translate x (y - blockHeight / 2 + lineHeight / 2), Scale scale scale,
          SetGlobalAlpha alpha] @ drawLinesLoop lines 0 lineHeight) = Some 0"
    by (simp add: depthAfter_drawLinesLoop)
  from run_bracket [OF this, of c] show ?thesis
    by (simp add: drawLines_def)
qed

lemma textAndBar_inherited:
  "inherited (run (textAndBar s p lines totalLineHeight blockHeight alpha yOffset scale) c)
     = inherited c"
proof -
  have "depthAfter 0 ([SetGlobalAlpha alpha, Translate (width s / 2) (height s / 2 + yOffset),
          Scale scale scale] @ drawLines lines 0 0 totalLineHeight blockHeight 1 1) = Some 0"
    by (simp add: depthAfter_drawLines)
  from run_bracket [OF this, of c]
  have "inherited (run ([Save, SetGlobalAlpha alpha,
          Translate (width s / 2) (height s / 2 + yOffset), Scale scale scale]
          @ drawLines lines 0 0 totalLineHeight blockHeight 1 1 @ [Restore]) c) = inherited c"
    by simp
  then show ?thesis
    by (simp add: textAndBar_def run_append run_keepsInherited progressBar_keepsInherited)
qed

lemma renderFrame_inherited:
  fixes c :: "'o canvas"
  assumes "renderFrame s tMs c = Some c'"
  shows "inherited c' = inherited c"
proof -
  obtain p where p: "progress s tMs = Some p"
    using assms by (auto simp: renderFrame_def drawFrame_def split: option.splits)
  define bg where "bg = [ClearRect 0 0 (width s) (height s),
      SetFillStyle (LinearGradient 0 0 0 (height s)
        [(0, background s), (1, shade (background s) (- 12))]),
      FillRect 0 0 (width s) (height s)]"
  define styles where "styles = [SetFillStyle (ColorString (textColor s)),
      SetTextAlign ''center'', SetTextBaseline ''middle'', SetFont (fontSize s)]"
  define front where "front = bg @ wavesLoop s tMs 0 @ styles"
  have front: "list_all keepsInherited front"
    by (simp add: front_def bg_def styles_def wavesLoop_keepsInherited)
  obtain body where frame: "drawFrame s tMs = Some (front @ body)"
    and body: "\<And>d :: 'o canvas. inherited (run body d) = inherited d"
    using p
    by (cases "animation s")
       (simp_all add: drawFrame_def front_def bg_def styles_def Let_def textAndBar_inherited
          drawLines_inherited)
  have "c' = run body (run front c)"
    using assms by (simp add: renderFrame_def frame run_append)
  then show ?thesis
    using body run_keepsInherited [OF front] by simp
qed

text \<open>
  Claim C2. The calls one invocation of \<open>drawFrame\<close> issues are a function of the
  settings and the elapsed time alone. Run on two contexts that hold the same surface
  and agree on the inherited drawing state, they leave the same surface, whatever fill
  and stroke style, line width, font, text alignment, path and saved states an earlier
  frame has left in either context. In particular a second invocation on the context
  that the first one has left, its surface cleared again, paints what the first painted.
\<close>

theorem renderFrame_deterministic:
  assumes "sameSurface c1 c2"
  shows "map_option surface (renderFrame s tMs c1) = map_option surface (renderFrame s tMs c2) \<and>
         Option.bind (renderFrame s tMs c1)
           (\<lambda>c'. map_option surface (renderFrame s tMs (c'\<lparr>surface := surface c1\<rparr>)))
           = map_option surface (renderFrame s tMs c1)"
proof -
  have again: "map_option surface (renderFrame s tMs (c'\<lparr>surface := surface c1\<rparr>))
                 = map_option surface (renderFrame s tMs c1)"
    if "renderFrame s tMs c1 = Some c'" for c'
  proof -
    have "inherited c' = inherited c1"
      using that by (rule renderFrame_inherited)
    then have "sameSurface (c'\<lparr>surface := surface c1\<rparr>) c1"
      by (simp add: sameSurface_def inherited_def)
    then show ?thesis
      by (rule renderFrame_same_surface)
  qed
  show ?thesis
  proof (cases "renderFrame s tMs c1")
    case None
    then show ?thesis
      using renderFrame_same_surface [OF assms, of s tMs] by simp
  next
    case (Some c')
    then show ?thesis
      using renderFrame_same_surface [OF assms, of s tMs] again [OF Some] by simp
  qed
qed

theorem renderFrame_deterministic_witness:
  "sameSurface freshCanvas usedCanvas \<and> freshCanvas \<noteq> usedCanvas \<and>
   renderFrame DEFAULTS 3000 freshCanvas \<noteq> None \<and>
   map_option surface (renderFrame DEFAULTS 3000 freshCanvas) =
   map_option surface (renderFrame DEFAULTS 3000 usedCanvas)"
proof -
  have same: "sameSurface freshCanvas usedCanvas"
    by (simp add: sameSurface_def freshCanvas_def usedCanvas_def)
  have "path freshCanvas \<noteq> path usedCanvas"
    by (simp add: freshCanvas_def usedCanvas_def)
  then have differ: "freshCanvas \<noteq> usedCanvas"
    by auto
  have "progress DEFAULTS 3000 \<noteq> None"
    by (simp add: progress_def DEFAULTS_def)
  then have "renderFrame DEFAULTS 3000 freshCanvas \<noteq> None"
    by (auto simp: renderFrame_def drawFrame_def)
  then show ?thesis
    using same differ renderFrame_deterministic [OF same, of DEFAULTS 3000] by simp
qed

section \<open>Properties of the capture session\<close>

lemma startRecording_stream_throws:
  assumes "canvasMounted P" and "captureStream P (fps s) = Inl e"
  shows "startRecording P s st = (Some e, st\<lparr>error := None, blobUrl := None\<rparr>)"
  using assms by (simp add: startRecording_def)

lemma startRecording_constructor_throws:
  assumes "canvasMounted P" and "captureStream P (fps s) = Inr stream"
    and "newMediaRecorder P stream
           (case find (isTypeSupported P) mimeCandidates of None \<Rightarrow> None | Some m \<Rightarrow>
              if m \<noteq> [] then Some m else None) = Inl e"
  shows "\<exists>st'. startRecording P s st = (None, st') \<and> failedWith (describe e) st' \<and>
           rafRef st' = rafRef st \<and> pendingFrames st' = pendingFrames st"
  using assms
  by (auto simp: startRecording_def catchBlock_def failedWith_def Let_def split: option.splits)

lemma startRecording_start_throws:
  assumes "canvasMounted P" and "captureStream P (fps s) = Inr stream"
    and "newMediaRecorder P stream
           (case find (isTypeSupported P) mimeCandidates of None \<Rightarrow> None | Some m \<Rightarrow>
              if m \<noteq> [] then Some m else None) = Inr mr"
    and "startRecorder P mr 100 = Inl e"
  shows "\<exists>st'. startRecording P s st = (None, st') \<and> failedWith (describe e) st' \<and>
           rafRef st' = rafRef st \<and> pendingFrames st' = pendingFrames st"
  using assms
  by (auto simp: startRecording_def catchBlock_def failedWith_def Let_def split: option.splits)

text \<open>
  Claim C3 at a failing input. With a frame rate of \<open>-1\<close> the call of \<open>captureStream\<close>
  throws; it stands before the \<^verbatim>\<open>try\<close> block, so the exception leaves
  \<open>startRecording\<close> and no description is stored: the session has not failed with the
  error's message. When it is the \<open>MediaRecorder\<close> constructor that throws the same
  error, the \<^verbatim>\<open>catch\<close> block stores the message and the session is otherwise as before.
\<close>

theorem startRecording_stream_failure_uncaught:
  "fst (startRecording browser (DEFAULTS\<lparr>fps := - 1\<rparr>) idle) = Some notSupported \<and>
   error (snd (startRecording browser (DEFAULTS\<lparr>fps := - 1\<rparr>) idle)) = None \<and>
   \<not> failedWith (describe notSupported) (snd (startRecording browser (DEFAULTS\<lparr>fps := - 1\<rparr>) idle)) \<and>
   startRecording noEncoder DEFAULTS idle =
     (None, idle\<lparr>error := Some ''The operation is not supported.''\<rparr>)"
  by (simp add: startRecording_def browser_def noEncoder_def DEFAULTS_def idle_def failedWith_def
      catchBlock_def describe_def notSupported_def mimeCandidates_def)

lemma stopRecording_fields:
  "recording (stopRecording st) = False"
  "rafRef (stopRecording st) = None"
  "blobUrl (stopRecording st) = blobUrl st"
  "chunksRef (stopRecording st) = chunksRef st"
  by (simp_all add: stopRecording_def Let_def split: option.splits)

lemma stopRecording_notRunning: "notRunning (stopRecording st) "
  by (simp add: stopRecording_def notRunning_def recorderInactive_def Let_def
      split: option.splits)

lemma stopRecording_at_rest: "notRunning st \<Longrightarrow> stopRecording st = st"
  by (auto simp: stopRecording_def notRunning_def recorderInactive_def Let_def
      split: option.splits)

lemma stopRecording_no_tick_inactive:
  "rafRef st = None \<Longrightarrow> recorderInactive st \<Longrightarrow> stopRecording st = st\<lparr>recording := False\<rparr>"
  by (auto simp: stopRecording_def recorderInactive_def Let_def split: option.splits)

text \<open>
  Claim C9. With no tick pending and the recorder inactive, \<open>stopRecording\<close> changes
  nothing but the recording flag, which it lowers; so on a session that is not running
  it changes nothing at all. After any call the session is not running, hence a second
  call in a row leaves the state as the first one left it.
\<close>

theorem stopRecording_idempotent:
  "(rafRef st = None \<and> recorderInactive st \<longrightarrow> stopRecording st = st\<lparr>recording := False\<rparr>) \<and>
   (notRunning st \<longrightarrow> stopRecording st = st) \<and>
   notRunning (stopRecording st) \<and>
   stopRecording (stopRecording st) = stopRecording st"
  using stopRecording_at_rest [of st] stopRecording_notRunning [of st]
    stopRecording_at_rest [of "stopRecording st"] stopRecording_no_tick_inactive [of st]
  by blast

theorem stopRecording_idempotent_witness:
  "notRunning idle \<and> stopRecording idle = idle \<and>
   \<not> notRunning (snd (startRecording browser DEFAULTS idle)) \<and>
   stopRecording (snd (startRecording browser DEFAULTS idle)) \<noteq>
     snd (startRecording browser DEFAULTS idle) \<and>
   stopRecording (stopRecording (snd (startRecording browser DEFAULTS idle))) =
     stopRecording (snd (startRecording browser DEFAULTS idle))"
proof -
  have rest: "notRunning idle"
    by (simp add: notRunning_def recorderInactive_def idle_def)
  have "recording (snd (startRecording browser DEFAULTS idle))"
    by (simp add: startRecording_def browser_def DEFAULTS_def idle_def mimeCandidates_def)
  then have running: "\<not> notRunning (snd (startRecording browser DEFAULTS idle))"
    by (simp add: notRunning_def)
  then have "stopRecording (snd (startRecording browser DEFAULTS idle)) \<noteq>
     snd (startRecording browser DEFAULTS idle)"
    using stopRecording_notRunning [of "snd (startRecording browser DEFAULTS idle)"] by auto
  then show ?thesis
    using rest running stopRecording_idempotent [of idle]
      stopRecording_idempotent [of "snd (startRecording browser DEFAULTS idle)"]
    by blast
qed

lemma deliver_chunks:
  "chunksRef (deliver events st) = chunksRef st @ filter nonEmpty (fragments events)"
  by (induction events arbitrary: st rule: fragments.induct)
     (simp_all add: onDataAvailable_def nonEmpty_def)

lemma startRecording_empties_chunks:
  assumes "canvasMounted P" and "startRecording P s st0 = (None, st)" and "recording st"
  shows "chunksRef st = []"
  using assms
  by (auto simp: startRecording_def catchBlock_def Let_def split: sum.splits)

text \<open>
  Claim C10. In a session that \<open>startRecording\<close> has started, whatever data events the
  encoder delivers, the chunk buffer holds exactly the fragments of size greater than 0,
  in the order of their events; fragments of size 0 and events without data leave no
  trace. The blob that \<open>onstop\<close> assembles is the concatenation of these fragments.
\<close>

theorem chunks_nonempty_in_order:
  assumes "canvasMounted P" and "startRecording P s st0 = (None, st)" and "recording st"
  shows "chunksRef (deliver events st) = filter nonEmpty (fragments events) \<and>
         list_all (\<lambda>dat. 0 < length (bytes dat)) (chunksRef (deliver events st)) \<and>
         map_option bytes (blobUrl (onStop mr (deliver events st))) =
           Some (concat (map bytes (filter nonEmpty (fragments events))))"
proof -
  have "chunksRef st = []"
    using assms by (rule startRecording_empties_chunks)
  then have chunks: "chunksRef (deliver events st) = filter nonEmpty (fragments events)"
    by (simp add: deliver_chunks)
  have "list_all nonEmpty (filter nonEmpty (fragments events))"
    by (simp add: list_all_iff)
  then have "list_all (\<lambda>dat. 0 < length (bytes dat)) (chunksRef (deliver events st))"
    by (simp add: chunks nonEmpty_def [abs_def])
  then show ?thesis
    using chunks by (simp add: onStop_def)
qed

theorem chunks_nonempty_in_order_witness:
  "canvasMounted browser \<and> recording (snd (startRecording browser DEFAULTS idle)) \<and>
   fst (startRecording browser DEFAULTS idle) = None \<and>
   chunksRef (deliver [Some \<lparr>bytes = [26, 69], mediaType = ''video/webm''\<rparr>, None,
                       Some \<lparr>bytes = [], mediaType = ''video/webm''\<rparr>,
                       Some \<lparr>bytes = [223], mediaType = ''video/webm''\<rparr>]
               (snd (startRecording browser DEFAULTS idle))) =
     [\<lparr>bytes = [26, 69], mediaType = ''video/webm''\<rparr>,
      \<lparr>bytes = [223], mediaType = ''video/webm''\<rparr>] \<and>
   map_option bytes (blobUrl (onStop \<lparr>state = Inactive, mimeType = ''video/webm''\<rparr>
     (deliver [Some \<lparr>bytes = [26, 69], mediaType = ''video/webm''\<rparr>, None,
               Some \<lparr>bytes = [], mediaType = ''video/webm''\<rparr>,
               Some \<lparr>bytes = [223], mediaType = ''video/webm''\<rparr>]
        (snd (startRecording browser DEFAULTS idle))))) = Some [26, 69, 223]"
proof -
  have m: "canvasMounted browser"
    by (simp add: browser_def)
  have s: "startRecording browser DEFAULTS idle = (None, snd (startRecording browser DEFAULTS idle))"
    by (simp add: startRecording_def browser_def DEFAULTS_def idle_def mimeCandidates_def)
  have r: "recording (snd (startRecording browser DEFAULTS idle))"
    by (simp add: startRecording_def browser_def DEFAULTS_def idle_def mimeCandidates_def)
  have f: "fst (startRecording browser DEFAULTS idle) = None"
    by (simp add: startRecording_def browser_def DEFAULTS_def idle_def mimeCandidates_def)
  show ?thesis
    using m r f
      chunks_nonempty_in_order [OF m s r,
        of "[Some \<lparr>bytes = [26, 69], mediaType = ''video/webm''\<rparr>, None,
             Some \<lparr>bytes = [], mediaType = ''video/webm''\<rparr>,
             Some \<lparr>bytes = [223], mediaType = ''video/webm''\<rparr>]"
           "\<lparr>state = Inactive, mimeType = ''video/webm''\<rparr>"]
    by (simp add: nonEmpty_def)
qed

end
